theory Spec2Isabelle
  imports
    Main
    "HOL-Library.Sublist"
    "HOL-Library.List_Lexorder"
    "HOL-Library.Product_Lexorder"
    "HOL-Library.Multiset"
begin

section \<open>Python strings and the builtins the widget uses\<close>

text \<open>
  A Python \<open>str\<close> is a sequence of Unicode code points, so \<open>len\<close> counts code points and
  \<open>sorted\<close> compares strings lexicographically by code point. A string is modelled as the
  list of its code points; the order on lists is the lexicographic one, the order on tuples
  the lexicographic one on pairs nested to the right.

  \<open>str.lower\<close> depends on the Unicode case tables, which are not part of the program: every
  function that lowercases takes the lowercasing function as its first argument \<open>lower\<close>.
  \<open>ascii_lower\<close> is the instance used to evaluate the functions on ASCII text, where it
  agrees with \<open>str.lower\<close>.
\<close>

type_synonym str = "nat list"

definition ascii :: "string \<Rightarrow> str" where
  "ascii cs = map of_char cs"

datatype exn = IndexError | ValueError | OverflowError

definition ascii_lower :: "str \<Rightarrow> str" where
  "ascii_lower s = map (\<lambda>c. if 65 \<le> c \<and> c \<le> 90 then c + 32 else c) s"

definition ascii_upper :: "str \<Rightarrow> str" where
  "ascii_upper s = map (\<lambda>c. if 97 \<le> c \<and> c \<le> 122 then c - 32 else c) s"

text \<open>\<open>str.isspace\<close> on one code point: the code points CPython treats as whitespace.\<close>

definition isspace :: "nat \<Rightarrow> bool" where
  "isspace c \<longleftrightarrow>
     (9 \<le> c \<and> c \<le> 13) \<or> (28 \<le> c \<and> c \<le> 32) \<or> c = 133 \<or> c = 160 \<or> c = 5760 \<or>
     (8192 \<le> c \<and> c \<le> 8202) \<or> c = 8232 \<or> c = 8233 \<or> c = 8239 \<or> c = 8287 \<or> c = 12288"

text \<open>\<open>s.strip()\<close>: leading and trailing whitespace removed.\<close>

definition strip :: "str \<Rightarrow> str" where
  "strip s = rev (dropWhile isspace (rev (dropWhile isspace s)))"

text \<open>\<open>text.startswith(sub)\<close> and \<open>sub in text\<close> are \<^const>\<open>prefix\<close> and \<^const>\<open>sublist\<close>.
  \<open>text.find(sub)\<close> is the lowest index at which \<open>sub\<close> occurs in \<open>text\<close>, or \<open>-1\<close>.\<close>

fun str_find :: "str \<Rightarrow> str \<Rightarrow> int" where
  "str_find [] sub = (if sub = [] then 0 else - 1)"
| "str_find (c # cs) sub =
     (if prefix sub (c # cs) then 0
      else (let r = str_find cs sub in if r < 0 then - 1 else r + 1))"

text \<open>\<open>xs.index(v)\<close>: the first index of \<open>v\<close>. Python raises \<open>ValueError\<close> when \<open>v\<close> is
  absent; the widget calls it only after \<open>v in xs\<close>, and the model returns the length there.\<close>

definition list_index :: "'a list \<Rightarrow> 'a \<Rightarrow> nat" where
  "list_index xs v = length (takeWhile (\<lambda>x. x \<noteq> v) xs)"

text \<open>\<open>xs[i]\<close> for a Python integer \<open>i\<close>: a negative index counts from the end, an index out
  of range raises \<open>IndexError\<close>.\<close>

definition getitem :: "'a list \<Rightarrow> int \<Rightarrow> exn + 'a" where
  "getitem xs i =
     (if 0 \<le> i \<and> i < int (length xs) then Inr (xs ! nat i)
      else if i < 0 \<and> - int (length xs) \<le> i then Inr (xs ! nat (int (length xs) + i))
      else Inl IndexError)"

section \<open>The session state\<close>

record session =
  prompt_text :: str
  choices :: "str list"
  max_rows :: int
  panel_width :: int
  panel_inner_width :: int
  input_text :: str
  filtered_items :: "str list"
  selected_index :: int
  view_start :: int

subsection \<open>Viewport\<close>

definition ensure_selection_visible :: "bool \<Rightarrow> session \<Rightarrow> session" where
  "ensure_selection_visible reset_view s =
     (if filtered_items s = [] then s\<lparr>view_start := 0\<rparr>
      else if max_rows s \<le> 0 then s\<lparr>view_start := 0\<rparr>
      else
        (let max_view_start = max (int (length (filtered_items s)) - max_rows s) 0
         in if reset_view
            then s\<lparr>view_start := max 0 (min (selected_index s) max_view_start)\<rparr>
            else
              (let s1 =
                 (if selected_index s < view_start s
                  then s\<lparr>view_start := selected_index s\<rparr>
                  else if selected_index s \<ge> view_start s + max_rows s
                  then s\<lparr>view_start := selected_index s - max_rows s + 1\<rparr>
                  else s)
               in s1\<lparr>view_start := max 0 (min (view_start s1) max_view_start)\<rparr>)))"

subsection \<open>Filtering and ranking\<close>

definition sort_key :: "(str \<Rightarrow> str) \<Rightarrow> str \<Rightarrow> str \<Rightarrow> int \<times> int \<times> str" where
  "sort_key lower lowered item =
     (let text = lower item;
          starts_with = (if prefix lowered text then 0 else 1);
          position = str_find text lowered;
          position = (if position \<ge> 0 then position else int (length text))
      in (starts_with, position, text))"

definition sort_items :: "(str \<Rightarrow> str) \<Rightarrow> str list \<Rightarrow> str \<Rightarrow> str list" where
  "sort_items lower items query =
     (if items = [] then []
      else if query = [] then sort items
      else (let lowered = lower query in List.sort_key (sort_key lower lowered) items))"

definition filter_items :: "(str \<Rightarrow> str) \<Rightarrow> session \<Rightarrow> session" where
  "filter_items lower s =
     (let source = choices s;
          previous_value =
            (if filtered_items s \<noteq> [] \<and> 0 \<le> selected_index s
                \<and> selected_index s < int (length (filtered_items s))
             then Some (filtered_items s ! nat (selected_index s)) else None);
          query = strip (input_text s);
          filtered =
            (if query = [] then source
             else (let lowered = lower query
                   in filter (\<lambda>item. sublist lowered (lower item)) source));
          sorted_items = sort_items lower filtered query;
          s = s\<lparr>filtered_items := sorted_items\<rparr>
      in if sorted_items = [] then s\<lparr>selected_index := 0, view_start := 0\<rparr>
         else
           (let s =
                  (case previous_value of
                     None \<Rightarrow> s\<lparr>selected_index := 0\<rparr>
                   | Some v \<Rightarrow>
                       if v \<noteq> [] \<and> v \<in> set sorted_items
                       then s\<lparr>selected_index := int (list_index sorted_items v)\<rparr>
                       else s\<lparr>selected_index := 0\<rparr>);
                reset_view =
                  (case previous_value of None \<Rightarrow> True
                   | Some v \<Rightarrow> v \<notin> set sorted_items)
            in ensure_selection_visible reset_view s))"

text \<open>\<open>__init__\<close>: the fields are set and the first filter cycle runs.\<close>

definition init :: "(str \<Rightarrow> str) \<Rightarrow> str \<Rightarrow> str list \<Rightarrow> int \<Rightarrow> session" where
  "init lower prompt cs rows =
     filter_items lower
       \<lparr>prompt_text = prompt, choices = cs, max_rows = rows, panel_width = 80,
        panel_inner_width = 80 - 4, input_text = [], filtered_items = [],
        selected_index = 0, view_start = 0\<rparr>"

section \<open>Key handlers\<close>

definition key_up :: "session \<Rightarrow> session" where
  "key_up s =
     (if filtered_items s \<noteq> [] \<and> selected_index s > 0
      then ensure_selection_visible False (s\<lparr>selected_index := selected_index s - 1\<rparr>)
      else s)"

definition key_down :: "session \<Rightarrow> session" where
  "key_down s =
     (if filtered_items s \<noteq> [] \<and> selected_index s < int (length (filtered_items s)) - 1
      then ensure_selection_visible False (s\<lparr>selected_index := selected_index s + 1\<rparr>)
      else s)"

definition accept_selection :: "session \<Rightarrow> exn + session" where
  "accept_selection s =
     (if filtered_items s \<noteq> []
      then (case getitem (filtered_items s) (selected_index s) of
              Inl e \<Rightarrow> Inl e
            | Inr v \<Rightarrow> Inr (s\<lparr>input_text := v\<rparr>))
      else Inr s)"

definition key_tab :: "(str \<Rightarrow> str) \<Rightarrow> session \<Rightarrow> exn + session" where
  "key_tab lower s =
     (if filtered_items s \<noteq> []
      then (case accept_selection s of
              Inl e \<Rightarrow> Inl e
            | Inr s1 \<Rightarrow> Inr (ensure_selection_visible False (filter_items lower s1)))
      else Inr s)"

text \<open>\<open>enter\<close> ends the run; the value is the result handed to \<open>event.app.exit\<close>.\<close>

definition key_enter :: "session \<Rightarrow> exn + str" where
  "key_enter s =
     (let text = input_text s
      in if text = [] \<and> filtered_items s \<noteq> []
         then getitem (filtered_items s) (selected_index s)
         else Inr text)"

definition key_escape :: "(str \<Rightarrow> str) \<Rightarrow> session \<Rightarrow> session" where
  "key_escape lower s = filter_items lower (s\<lparr>input_text := []\<rparr>)"

definition key_backspace :: "(str \<Rightarrow> str) \<Rightarrow> session \<Rightarrow> session" where
  "key_backspace lower s =
     (if input_text s \<noteq> []
      then filter_items lower (s\<lparr>input_text := butlast (input_text s)\<rparr>)
      else s)"

definition key_ctrl_u :: "(str \<Rightarrow> str) \<Rightarrow> session \<Rightarrow> session" where
  "key_ctrl_u lower s = filter_items lower (s\<lparr>input_text := []\<rparr>)"

definition key_char :: "(str \<Rightarrow> str) \<Rightarrow> nat \<Rightarrow> session \<Rightarrow> session" where
  "key_char lower c s = filter_items lower (s\<lparr>input_text := input_text s @ [c]\<rparr>)"

definition printable :: str where
  "printable = ascii ''abcdefghijklmnopqrstuvwxyzABCDEFGHIJKLMNOPQRSTUVWXYZ0123456789.-_ ''"

text \<open>The keys that leave the prompt running. A character outside \<open>printable\<close> has no
  binding and leaves the state as it is.\<close>

datatype key = Up | Down | Tab | Escape | Backspace | CtrlU | Char nat

fun handle :: "(str \<Rightarrow> str) \<Rightarrow> key \<Rightarrow> session \<Rightarrow> exn + session" where
  "handle lower Up s = Inr (key_up s)"
| "handle lower Down s = Inr (key_down s)"
| "handle lower Tab s = key_tab lower s"
| "handle lower Escape s = Inr (key_escape lower s)"
| "handle lower Backspace s = Inr (key_backspace lower s)"
| "handle lower CtrlU s = Inr (key_ctrl_u lower s)"
| "handle lower (Char c) s = (if c \<in> set printable then Inr (key_char lower c s) else Inr s)"

fun run_keys :: "(str \<Rightarrow> str) \<Rightarrow> key list \<Rightarrow> session \<Rightarrow> exn + session" where
  "run_keys lower [] s = Inr s"
| "run_keys lower (k # ks) s =
     (case handle lower k s of Inl e \<Rightarrow> Inl e | Inr s' \<Rightarrow> run_keys lower ks s')"

text \<open>The states a session can be in: the one \<open>__init__\<close> builds, and every state a key
  handler returns from such a state.\<close>

inductive reachable :: "(str \<Rightarrow> str) \<Rightarrow> session \<Rightarrow> bool" for lower where
  start: "reachable lower (init lower prompt cs rows)"
| step: "reachable lower s \<Longrightarrow> handle lower k s = Inr s' \<Longrightarrow> reachable lower s'"

section \<open>Rendering the panel\<close>

text \<open>A formatted text is a list of fragments, each a style and a text.\<close>

type_synonym formatted_text = "(str \<times> str) list"

text \<open>\<open>range(n)\<close> for a Python integer: empty when \<open>n\<close> is not positive.\<close>

definition py_range :: "int \<Rightarrow> int list" where
  "py_range n = map int [0..<nat n]"

definition ljust :: "str \<Rightarrow> int \<Rightarrow> str" where
  "ljust text width = text @ replicate (nat (width - int (length text))) 32"

definition center :: "str \<Rightarrow> int \<Rightarrow> nat \<Rightarrow> str" where
  "center text width fillchar =
     (if int (length text) \<ge> width then text
      else
        (let marg = width - int (length text);
             left = marg div 2 + (if odd marg \<and> odd width then 1 else 0)
         in replicate (nat left) fillchar @ text @ replicate (nat (marg - left)) fillchar))"

text \<open>\<open>item.split(" ", 1)\<close> and \<open>rest.rsplit(" ", 1)\<close>, unpacked into two names: without a
  space the unpacking raises \<open>ValueError\<close>, which is \<open>None\<close> here.\<close>

definition split_first :: "str \<Rightarrow> (str \<times> str) option" where
  "split_first text =
     (if 32 \<in> set text
      then Some (takeWhile (\<lambda>c. c \<noteq> 32) text, tl (dropWhile (\<lambda>c. c \<noteq> 32) text))
      else None)"

definition rsplit_last :: "str \<Rightarrow> (str \<times> str) option" where
  "rsplit_last text =
     (if 32 \<in> set text
      then Some (rev (tl (dropWhile (\<lambda>c. c \<noteq> 32) (rev text))),
                 rev (takeWhile (\<lambda>c. c \<noteq> 32) (rev text)))
      else None)"

definition truncate :: "str \<Rightarrow> int \<Rightarrow> str" where
  "truncate text width =
     (if width \<le> 0 then []
      else if int (length text) \<le> width then text
      else if width = 1 then [8230]
      else take (nat (width - 1)) text @ [8230])"

definition panel_header :: "session \<Rightarrow> str \<Rightarrow> formatted_text" where
  "panel_header s title =
     (let inner = [32] @ title @ [32];
          line_len = panel_width s - 2;
          header = center inner line_len 9472
      in [(ascii ''class:panel-border'', [9484] @ header @ [9488, 10])])"

definition panel_footer :: "session \<Rightarrow> formatted_text" where
  "panel_footer s =
     (let line_len = panel_width s - 2
      in [(ascii ''class:panel-border'', [9492] @ replicate (nat line_len) 9472 @ [9496, 10])])"

definition panel_row :: "session \<Rightarrow> str \<Rightarrow> str \<Rightarrow> formatted_text" where
  "panel_row s text style =
     (let padded = ljust text (panel_inner_width s)
      in [(ascii ''class:panel-border'', [9474, 32]),
          (style, padded),
          (ascii ''class:panel-border'', [32, 9474, 10])])"

definition format_item_columns :: "str \<Rightarrow> int \<Rightarrow> str" where
  "format_item_columns item content_width =
     (if content_width \<le> 0 then []
      else
        (case split_first item of
           None \<Rightarrow> truncate item content_width
         | Some (glyph, rest) \<Rightarrow>
             (case rsplit_last rest of
                None \<Rightarrow> truncate item content_width
              | Some (name, code) \<Rightarrow>
                  (let separator = [32, 183, 32];
                       separators_len = int (length separator) * 2;
                       base_len = int (length glyph) + int (length code) + separators_len
                   in if content_width \<le> base_len + 1 then truncate item content_width
                      else
                        (let name_space = content_width - base_len;
                             name_text = truncate name name_space;
                             name_text = (if int (length name_text) < name_space
                                          then ljust name_text name_space else name_text)
                         in glyph @ separator @ name_text @ separator @ code)))))"

text \<open>One pass of the loop over the display slots of a non-empty list. The read
  \<open>filtered_items[actual_index]\<close> is a Python index, so it can raise.\<close>

definition panel_slot :: "session \<Rightarrow> int \<Rightarrow> exn + formatted_text" where
  "panel_slot s idx =
     (let actual_index = view_start s + idx
      in if actual_index < int (length (filtered_items s))
         then (case getitem (filtered_items s) actual_index of
                 Inl e \<Rightarrow> Inl e
               | Inr item \<Rightarrow>
                   (let is_selected = (actual_index = selected_index s);
                        prefix = (if is_selected then [8250, 32] else [32, 32]);
                        formatted =
                          format_item_columns item (panel_inner_width s - int (length prefix));
                        content = prefix @ formatted;
                        style = (if is_selected then ascii ''class:selected-line''
                                 else ascii ''class:panel-line'')
                    in Inr (panel_row s content style)))
         else Inr (panel_row s [] (ascii ''class:panel-placeholder'')))"

fun panel_slots :: "session \<Rightarrow> int list \<Rightarrow> formatted_text \<Rightarrow> exn + formatted_text" where
  "panel_slots s [] lines = Inr lines"
| "panel_slots s (idx # idxs) lines =
     (case panel_slot s idx of
        Inl e \<Rightarrow> Inl e
      | Inr row \<Rightarrow> panel_slots s idxs (lines @ row))"

definition render_panel :: "session \<Rightarrow> exn + formatted_text" where
  "render_panel s =
     (if filtered_items s = []
      then
        (let lines = panel_header s (ascii ''No results'');
             message = truncate (ascii ''Tidak ada hasil'') (panel_inner_width s);
             lines = lines @ panel_row s message (ascii ''class:no-results'');
             lines = fold (\<lambda>_ acc. acc @ panel_row s [] (ascii ''class:panel-placeholder''))
                       (py_range (max_rows s - 1)) lines
         in Inr (lines @ panel_footer s))
      else
        (case panel_slots s (py_range (max_rows s)) (panel_header s (ascii ''NerdIcons'')) of
           Inl e \<Rightarrow> Inl e
         | Inr lines \<Rightarrow> Inr (lines @ panel_footer s)))"

text \<open>A content row of the panel starts with the fragment that draws its left border, and
  no other fragment of the panel is that one: the number of content rows of a rendered
  panel is the number of these fragments.\<close>

definition content_rows :: "formatted_text \<Rightarrow> nat" where
  "content_rows lines =
     length (filter (\<lambda>fragment. fragment = (ascii ''class:panel-border'', [9474, 32])) lines)"

section \<open>Loading the candidates\<close>

text \<open>
  \<open>chr(i)\<close> in CPython 3.11: the argument is converted to a C \<open>int\<close> first, which raises
  \<open>OverflowError\<close> outside the 32-bit range, and a value outside \<open>range(0x110000)\<close> raises
  \<open>ValueError\<close>.
\<close>

definition chr :: "int \<Rightarrow> exn + nat" where
  "chr i =
     (if i < - 2147483648 \<or> i > 2147483647 then Inl OverflowError
      else if 0 \<le> i \<and> i < 1114112 then Inr (nat i)
      else Inl ValueError)"

text \<open>
  The dataset file is absent (\<open>None\<close>) or holds a JSON object of names and hexadecimal
  strings, in the order of the file. \<open>int(hex_value, 16)\<close> and \<open>hex_value.upper()\<close> are the
  arguments \<open>int16\<close> and \<open>upper\<close>. The \<open>try\<close> block covers \<open>int\<close> and \<open>chr\<close>, and only
  \<open>ValueError\<close> is caught.
\<close>

fun load_loop ::
  "(str \<Rightarrow> exn + int) \<Rightarrow> (str \<Rightarrow> str) \<Rightarrow> (str \<times> str) list \<Rightarrow> str list \<Rightarrow> exn + str list"
where
  "load_loop int16 upper [] items = Inr items"
| "load_loop int16 upper ((name, hex_value) # raw) items =
     (case (case int16 hex_value of Inl e \<Rightarrow> Inl e | Inr code_point \<Rightarrow> chr code_point) of
        Inl ValueError \<Rightarrow> load_loop int16 upper raw items
      | Inl e \<Rightarrow> Inl e
      | Inr glyph \<Rightarrow>
          load_loop int16 upper raw
            (items @ [[glyph] @ [32] @ name @ ascii '' (U+'' @ upper hex_value @ ascii '')'']))"

definition load_nerdicons ::
  "(str \<Rightarrow> exn + int) \<Rightarrow> (str \<Rightarrow> str) \<Rightarrow> (str \<times> str) list option \<Rightarrow> exn + str list"
where
  "load_nerdicons int16 upper file =
     (case file of None \<Rightarrow> Inr [] | Some raw \<Rightarrow> load_loop int16 upper raw [])"

text \<open>
  \<open>int(s, 16)\<close> on a string of ASCII characters: surrounding ASCII whitespace is dropped,
  a sign and a \<open>0x\<close> prefix are optional, and single underscores may separate digits. The
  Unicode digits and spaces that \<open>int\<close> also accepts are left out of this instance, which
  serves to evaluate the loader on ASCII input.
\<close>

definition hexval :: "nat \<Rightarrow> int option" where
  "hexval c =
     (if 48 \<le> c \<and> c \<le> 57 then Some (int c - 48)
      else if 97 \<le> c \<and> c \<le> 102 then Some (int c - 87)
      else if 65 \<le> c \<and> c \<le> 70 then Some (int c - 55)
      else None)"

fun hex_digits :: "str \<Rightarrow> int \<Rightarrow> bool \<Rightarrow> int option" where
  "hex_digits [] acc after_digit = (if after_digit then Some acc else None)"
| "hex_digits (c # cs) acc after_digit =
     (if c = 95 then (if after_digit then hex_digits cs acc False else None)
      else (case hexval c of
              None \<Rightarrow> None
            | Some d \<Rightarrow> hex_digits cs (16 * acc + d) True))"

definition ascii_int16 :: "str \<Rightarrow> exn + int" where
  "ascii_int16 s =
     (let is_space = (\<lambda>c. (9 \<le> c \<and> c \<le> 13) \<or> c = 32);
          t = rev (dropWhile is_space (rev (dropWhile is_space s)));
          (sign, t) = (if take 1 t = [43] then (1, drop 1 t)
                       else if take 1 t = [45] then (- 1, drop 1 t) else (1, t));
          t = (if take 2 t = [48, 120] \<or> take 2 t = [48, 88]
               then (if take 1 (drop 2 t) = [95] then drop 3 t else drop 2 t) else t)
      in case hex_digits t 0 False of None \<Rightarrow> Inl ValueError | Some n \<Rightarrow> Inr (sign * n))"

section \<open>Properties of session states\<close>

text \<open>The value \<open>filter_items\<close> captures before it recomputes: the candidate at the
  selected index, when there is one.\<close>

definition previous_value :: "session \<Rightarrow> str option" where
  "previous_value s =
     (if filtered_items s \<noteq> [] \<and> 0 \<le> selected_index s
         \<and> selected_index s < int (length (filtered_items s))
      then Some (filtered_items s ! nat (selected_index s)) else None)"

text \<open>The selected index is \<open>0\<close> on an empty list and an index of the list otherwise.\<close>

definition selection_in_range :: "session \<Rightarrow> bool" where
  "selection_in_range s \<longleftrightarrow>
     0 \<le> selected_index s \<and> selected_index s < max 1 (int (length (filtered_items s)))"

text \<open>The viewport invariant of the data model.\<close>

definition viewport_ok :: "session \<Rightarrow> bool" where
  "viewport_ok s \<longleftrightarrow>
     view_start s \<le> selected_index s \<and> selected_index s < view_start s + max_rows s \<and>
     0 \<le> view_start s \<and>
     view_start s \<le> max (int (length (filtered_items s)) - max_rows s) 0"

definition session_inv :: "session \<Rightarrow> bool" where
  "session_inv s \<longleftrightarrow>
     selection_in_range s \<and> 0 \<le> view_start s \<and>
     (max_rows s \<le> 0 \<or> filtered_items s = [] \<or> viewport_ok s)"

text \<open>
  The two viewport policies as the specification words them. The recenter policy is
  \<open>view_start = clamp(selected_index, 0, max(len(filtered) - max_rows, 0))\<close>. The
  minimal-adjust policy: if \<open>selected_index < view_start\<close>, set
  \<open>view_start = selected_index\<close>; if \<open>selected_index \<ge> view_start + max_rows\<close>, set
  \<open>view_start = selected_index - max_rows + 1\<close>; always re-clamp to
  \<open>[0, max(len(filtered) - max_rows, 0)]\<close>. The two steps are taken in this order.
\<close>

definition clamp :: "int \<Rightarrow> int \<Rightarrow> int \<Rightarrow> int" where
  "clamp x lo hi = max lo (min x hi)"

definition spec_recenter :: "int \<Rightarrow> int \<Rightarrow> int \<Rightarrow> int" where
  "spec_recenter sel n rows = clamp sel 0 (max (n - rows) 0)"

definition spec_minimal_adjust :: "int \<Rightarrow> int \<Rightarrow> int \<Rightarrow> int \<Rightarrow> int" where
  "spec_minimal_adjust sel vs n rows =
     (let vs = (if sel < vs then sel else vs);
          vs = (if sel \<ge> vs + rows then sel - rows + 1 else vs)
      in clamp vs 0 (max (n - rows) 0))"

section \<open>Viewport lemmas\<close>

lemma ensure_visible_frame:
  "filtered_items (ensure_selection_visible r s) = filtered_items s"
  "selected_index (ensure_selection_visible r s) = selected_index s"
  "choices (ensure_selection_visible r s) = choices s"
  "input_text (ensure_selection_visible r s) = input_text s"
  "max_rows (ensure_selection_visible r s) = max_rows s"
  by (simp_all add: ensure_selection_visible_def Let_def)

lemma ensure_visible_more:
  "ensure_selection_visible r s = s\<lparr>view_start := view_start (ensure_selection_visible r s)\<rparr>"
  by (simp add: ensure_selection_visible_def Let_def)

lemma ensure_visible_nonneg: "0 \<le> view_start (ensure_selection_visible r s)"
  by (simp add: ensure_selection_visible_def Let_def)

lemma ensure_visible_viewport:
  assumes "0 \<le> selected_index s" "selected_index s < int (length (filtered_items s))"
    and "1 \<le> max_rows s"
  shows "viewport_ok (ensure_selection_visible r s)"
  using assms by (auto simp add: ensure_selection_visible_def viewport_ok_def Let_def)

lemma ensure_visible_inv:
  assumes "selection_in_range s"
  shows "session_inv (ensure_selection_visible r s)"
proof -
  have sel: "selection_in_range (ensure_selection_visible r s)"
    using assms by (simp add: selection_in_range_def ensure_visible_frame)
  have vp: "max_rows s \<le> 0 \<or> filtered_items s = [] \<or> viewport_ok (ensure_selection_visible r s)"
  proof (cases "max_rows s \<le> 0 \<or> filtered_items s = []")
    case True
    then show ?thesis by blast
  next
    case False
    then have "0 < length (filtered_items s)" by simp
    with assms have "selected_index s < int (length (filtered_items s))" "0 \<le> selected_index s"
      by (simp_all add: selection_in_range_def)
    with False show ?thesis by (simp add: ensure_visible_viewport)
  qed
  show ?thesis
    unfolding session_inv_def using sel vp
    by (simp add: ensure_visible_nonneg ensure_visible_frame)
qed

section \<open>Lemmas on the filter cycle\<close>

lemma list_index_less: "v \<in> set xs \<Longrightarrow> list_index xs v < length xs"
  unfolding list_index_def by (induction xs) auto

lemma list_index_nth: "v \<in> set xs \<Longrightarrow> xs ! list_index xs v = v"
  unfolding list_index_def by (induction xs) auto

lemma filter_items_frame:
  "choices (filter_items lower s) = choices s"
  "input_text (filter_items lower s) = input_text s"
  "max_rows (filter_items lower s) = max_rows s"
  by (simp_all add: filter_items_def Let_def ensure_visible_frame split: option.splits)

lemma filtered_items_filter_items:
  "filtered_items (filter_items lower s) =
     sort_items lower
       (if strip (input_text s) = [] then choices s
        else filter (\<lambda>item. sublist (lower (strip (input_text s))) (lower item)) (choices s))
       (strip (input_text s))"
  by (simp add: filter_items_def Let_def ensure_visible_frame split: option.splits)

lemma selected_index_filter_items:
  "selected_index (filter_items lower s) =
     (case previous_value s of
        None \<Rightarrow> 0
      | Some v \<Rightarrow>
          if v \<noteq> [] \<and> v \<in> set (filtered_items (filter_items lower s))
          then int (list_index (filtered_items (filter_items lower s)) v) else 0)"
  unfolding filtered_items_filter_items
  by (simp add: filter_items_def previous_value_def Let_def ensure_visible_frame split: option.splits)

lemma filter_items_selection: "selection_in_range (filter_items lower s)"
proof (cases "previous_value s")
  case None
  then show ?thesis by (simp add: selection_in_range_def selected_index_filter_items)
next
  case (Some v)
  show ?thesis
  proof (cases "v \<noteq> [] \<and> v \<in> set (filtered_items (filter_items lower s))")
    case True
    then have "list_index (filtered_items (filter_items lower s)) v
        < length (filtered_items (filter_items lower s))"
      by (simp add: list_index_less)
    with Some True show ?thesis
      by (simp add: selection_in_range_def selected_index_filter_items)
  next
    case False
    with Some show ?thesis
      by (auto simp add: selection_in_range_def selected_index_filter_items max_def)
  qed
qed

lemma filter_items_unfold:
  "filter_items lower s =
     (if filtered_items (filter_items lower s) = []
      then s\<lparr>filtered_items := [], selected_index := 0, view_start := 0\<rparr>
      else ensure_selection_visible
             (case previous_value s of None \<Rightarrow> True
              | Some v \<Rightarrow> v \<notin> set (filtered_items (filter_items lower s)))
             (s\<lparr>filtered_items := filtered_items (filter_items lower s),
                selected_index := selected_index (filter_items lower s)\<rparr>))"
  unfolding selected_index_filter_items filtered_items_filter_items
  by (simp add: filter_items_def previous_value_def Let_def split: option.splits)

lemma filter_items_view_nonneg: "0 \<le> view_start (filter_items lower s)"
  by (simp add: filter_items_def Let_def ensure_visible_nonneg split: option.splits)

lemma filter_items_inv: "session_inv (filter_items lower s)"
proof (cases "filtered_items (filter_items lower s) = []")
  case True
  then show ?thesis
    unfolding session_inv_def
    using filter_items_selection [of lower s] filter_items_view_nonneg [of lower s] by simp
next
  case False
  define s1 where "s1 = s\<lparr>filtered_items := filtered_items (filter_items lower s),
                selected_index := selected_index (filter_items lower s)\<rparr>"
  have "selection_in_range s1"
    using filter_items_selection [of lower s] by (simp add: s1_def selection_in_range_def)
  then have "session_inv (ensure_selection_visible
             (case previous_value s of None \<Rightarrow> True
              | Some v \<Rightarrow> v \<notin> set (filtered_items (filter_items lower s))) s1)"
    by (rule ensure_visible_inv)
  moreover have "filter_items lower s = ensure_selection_visible
             (case previous_value s of None \<Rightarrow> True
              | Some v \<Rightarrow> v \<notin> set (filtered_items (filter_items lower s))) s1"
    using False filter_items_unfold [of lower s] by (simp add: s1_def)
  ultimately show ?thesis by simp
qed

section \<open>Every reachable state satisfies the invariant\<close>

lemma key_up_inv:
  assumes "session_inv s"
  shows "session_inv (key_up s)"
proof (cases "filtered_items s \<noteq> [] \<and> selected_index s > 0")
  case True
  have "selection_in_range (s\<lparr>selected_index := selected_index s - 1\<rparr>)"
    using assms True by (auto simp add: session_inv_def selection_in_range_def)
  then show ?thesis using True by (simp add: key_up_def ensure_visible_inv)
next
  case False
  then show ?thesis using assms by (auto simp add: key_up_def)
qed

lemma key_down_inv:
  assumes "session_inv s"
  shows "session_inv (key_down s)"
proof (cases "filtered_items s \<noteq> [] \<and> selected_index s < int (length (filtered_items s)) - 1")
  case True
  have "selection_in_range (s\<lparr>selected_index := selected_index s + 1\<rparr>)"
    using assms True by (auto simp add: session_inv_def selection_in_range_def)
  then show ?thesis using True by (simp add: key_down_def ensure_visible_inv)
next
  case False
  then show ?thesis using assms by (auto simp add: key_down_def)
qed

lemma getitem_in_range:
  "0 \<le> i \<Longrightarrow> i < int (length xs) \<Longrightarrow> getitem xs i = Inr (xs ! nat i)"
  by (simp add: getitem_def)

lemma inv_index:
  assumes "session_inv s" "filtered_items s \<noteq> []"
  shows "0 \<le> selected_index s \<and> selected_index s < int (length (filtered_items s))"
proof -
  from assms(2) have "1 \<le> int (length (filtered_items s))"
    by (cases "filtered_items s") simp_all
  with assms(1) show ?thesis
    by (simp add: session_inv_def selection_in_range_def max_def)
qed

lemma key_tab_eq:
  assumes "session_inv s" "filtered_items s \<noteq> []"
  shows "key_tab lower s =
      Inr (ensure_selection_visible False
        (filter_items lower (s\<lparr>input_text := filtered_items s ! nat (selected_index s)\<rparr>)))"
  using assms inv_index [OF assms]
  by (simp add: key_tab_def accept_selection_def getitem_in_range)

lemma key_tab_inv:
  assumes "session_inv s"
  shows "\<exists>s'. key_tab lower s = Inr s' \<and> session_inv s'"
proof (cases "filtered_items s = []")
  case True
  with assms show ?thesis by (simp add: key_tab_def)
next
  case False
  have "session_inv (ensure_selection_visible False
        (filter_items lower (s\<lparr>input_text := filtered_items s ! nat (selected_index s)\<rparr>)))"
    by (rule ensure_visible_inv) (rule filter_items_selection)
  with key_tab_eq [OF assms False, of lower] show ?thesis by simp
qed

lemma handle_inv:
  assumes "session_inv s" "handle lower k s = Inr s'"
  shows "session_inv s'"
proof (cases k)
  case Up
  with assms show ?thesis by (auto simp add: key_up_inv)
next
  case Down
  with assms show ?thesis by (auto simp add: key_down_inv)
next
  case Tab
  with assms key_tab_inv [OF assms(1), of lower] show ?thesis by auto
next
  case Escape
  with assms show ?thesis by (auto simp add: key_escape_def filter_items_inv)
next
  case Backspace
  with assms show ?thesis by (auto simp add: key_backspace_def filter_items_inv split: if_splits)
next
  case CtrlU
  with assms show ?thesis by (auto simp add: key_ctrl_u_def filter_items_inv)
next
  case (Char c)
  with assms show ?thesis by (auto simp add: key_char_def filter_items_inv split: if_splits)
qed

lemma reachable_inv: "reachable lower s \<Longrightarrow> session_inv s"
proof (induction rule: reachable.induct)
  case (start prompt cs rows)
  show ?case unfolding init_def by (rule filter_items_inv)
next
  case (step s k s')
  then show ?case using handle_inv by blast
qed

section \<open>Lemmas on searching and sorting\<close>

lemma str_find_lower_bound: "- 1 \<le> str_find t sub"
  by (induction t) (auto simp add: Let_def)

lemma str_find_found_iff: "0 \<le> str_find t sub \<longleftrightarrow> sublist sub t"
proof (induction t)
  case Nil
  then show ?case by simp
next
  case (Cons c cs)
  then show ?case
    using str_find_lower_bound [of cs sub]
    by (auto simp add: Let_def sublist_Cons_right)
qed

lemma str_find_occurs:
  "str_find t sub = int i \<Longrightarrow> i \<le> length t \<and> prefix sub (drop i t)"
proof (induction t arbitrary: i)
  case Nil
  then show ?case by (auto split: if_splits)
next
  case (Cons c cs)
  show ?case
  proof (cases "prefix sub (c # cs)")
    case True
    with Cons.prems show ?thesis by simp
  next
    case False
    with Cons.prems obtain j where j: "i = Suc j" "str_find cs sub = int j"
      by (cases i) (auto simp add: Let_def split: if_splits)
    with Cons.IH [of j] show ?thesis by simp
  qed
qed

lemma str_find_first:
  "str_find t sub = int i \<Longrightarrow> j < i \<Longrightarrow> \<not> prefix sub (drop j t)"
proof (induction t arbitrary: i j)
  case Nil
  then show ?case by (auto split: if_splits)
next
  case (Cons c cs)
  show ?case
  proof (cases "prefix sub (c # cs)")
    case True
    with Cons.prems show ?thesis by simp
  next
    case False
    with Cons.prems obtain i' where i': "i = Suc i'" "str_find cs sub = int i'"
      by (cases i) (auto simp add: Let_def split: if_splits)
    show ?thesis
    proof (cases j)
      case 0
      with False show ?thesis by simp
    next
      case (Suc j')
      with Cons.prems i' have "j' < i'" by simp
      with Cons.IH [OF i'(2)] Suc show ?thesis by simp
    qed
  qed
qed

lemma sort_items_mset: "mset (sort_items lower items query) = mset items"
  by (simp add: sort_items_def Let_def)

lemma sort_items_sorted_plain: "sorted (sort_items lower items [])"
  by (simp add: sort_items_def)

lemma sort_items_sorted_key:
  "query \<noteq> [] \<Longrightarrow> sorted (map (sort_key lower (lower query)) (sort_items lower items query))"
  by (simp add: sort_items_def Let_def sorted_sort_key)

section \<open>Evaluation on concrete sessions\<close>

lemmas eval_defs = filter_items_def init_def sort_items_def sort_key_def
      ensure_selection_visible_def ascii_def ascii_lower_def strip_def isspace_def Let_def
      sublist_Cons_right key_char_def key_down_def key_up_def printable_def

lemma init_a: "init ascii_lower [] [[97]] 6 =
   \<lparr>prompt_text = [], choices = [[97]], max_rows = 6, panel_width = 80,
    panel_inner_width = 76, input_text = [], filtered_items = [[97]],
    selected_index = 0, view_start = 0\<rparr>"
  by (simp add: filter_items_def init_def sort_items_def ensure_selection_visible_def
      strip_def Let_def)

lemma init_empty: "init ascii_lower [] [] 6 =
   \<lparr>prompt_text = [], choices = [], max_rows = 6, panel_width = 80,
    panel_inner_width = 76, input_text = [], filtered_items = [],
    selected_index = 0, view_start = 0\<rparr>"
  by (simp add: filter_items_def init_def sort_items_def strip_def Let_def)

lemma init_a0: "init ascii_lower [] [[97]] 0 =
   \<lparr>prompt_text = [], choices = [[97]], max_rows = 0, panel_width = 80,
    panel_inner_width = 76, input_text = [], filtered_items = [[97]],
    selected_index = 0, view_start = 0\<rparr>"
  by (simp add: filter_items_def init_def sort_items_def ensure_selection_visible_def
      strip_def Let_def)

section \<open>Rank ordering on a concrete candidate list\<close>

text \<open>
  Claim C3, as amended. For the candidates \<open>["Abc", "xAbcy", "abcz"]\<close> and the query
  \<open>"abc"\<close> the filter recomputation returns \<open>["Abc", "abcz", "xAbcy"]\<close>: \<open>"Abc"\<close> and
  \<open>"abcz"\<close> both start with the query at position 0, and the last component of the key
  compares the lowercased texts, where \<open>"abc"\<close> comes before \<open>"abcz"\<close>.
\<close>

theorem rank_ordering_example:
  "filtered_items
     (filter_items ascii_lower
        ((init ascii_lower [] (map ascii [''Abc'', ''xAbcy'', ''abcz'']) 6)
           \<lparr>input_text := ascii ''abc''\<rparr>))
   = map ascii [''Abc'', ''abcz'', ''xAbcy'']"
  by (simp add: eval_defs)

text \<open>
  The order stated in claim C3, \<open>["abcz", "Abc", "xAbcy"]\<close>, is not the one the code
  returns.
\<close>

theorem rank_ordering_example_counterexample:
  "filtered_items
     (filter_items ascii_lower
        ((init ascii_lower [] (map ascii [''Abc'', ''xAbcy'', ''abcz'']) 6)
           \<lparr>input_text := ascii ''abc''\<rparr>))
   \<noteq> map ascii [''abcz'', ''Abc'', ''xAbcy'']"
  by (simp add: eval_defs)

section \<open>Navigation\<close>

text \<open>
  Claim C10. The navigate-up and navigate-down handlers change at most \<open>selected_index\<close>
  and \<open>view_start\<close>: the state they return is the old state with these two fields
  updated, so the query text, the full candidate list and the filtered list are the same
  and no filter recomputation has taken place.
\<close>

theorem navigation_frame:
  "key_up s = s\<lparr>selected_index := selected_index (key_up s), view_start := view_start (key_up s)\<rparr>
   \<and> key_down s =
       s\<lparr>selected_index := selected_index (key_down s), view_start := view_start (key_down s)\<rparr>
   \<and> input_text (key_up s) = input_text s \<and> choices (key_up s) = choices s
   \<and> filtered_items (key_up s) = filtered_items s
   \<and> input_text (key_down s) = input_text s \<and> choices (key_down s) = choices s
   \<and> filtered_items (key_down s) = filtered_items s"
  by (simp add: key_up_def key_down_def ensure_selection_visible_def Let_def)

lemma nav_run:
  assumes "session_inv s" "set ks \<subseteq> {Up, Down}"
  shows "\<exists>s'. run_keys lower ks s = Inr s' \<and> session_inv s'
      \<and> filtered_items s' = filtered_items s \<and> max_rows s' = max_rows s"
  using assms
proof (induction ks arbitrary: s)
  case Nil
  then show ?case by simp
next
  case (Cons k ks)
  then have k: "k = Up \<or> k = Down" by auto
  define s1 where "s1 = (if k = Up then key_up s else key_down s)"
  have h: "handle lower k s = Inr s1" using k by (auto simp add: s1_def)
  have i1: "session_inv s1" using Cons.prems(1) by (simp add: s1_def key_up_inv key_down_inv)
  have f1: "filtered_items s1 = filtered_items s \<and> max_rows s1 = max_rows s"
    by (simp add: s1_def key_up_def key_down_def ensure_visible_frame)
  from Cons.IH [OF i1] Cons.prems(2) obtain s' where
    "run_keys lower ks s1 = Inr s'" "session_inv s'"
    "filtered_items s' = filtered_items s1" "max_rows s' = max_rows s1" by auto
  with h f1 show ?case by simp
qed

lemma ensure_visible_zero:
  "max_rows s \<le> 0 \<Longrightarrow> view_start (ensure_selection_visible r s) = 0"
  by (simp add: ensure_selection_visible_def)

lemma filter_items_zero:
  assumes "max_rows s \<le> 0"
  shows "view_start (filter_items lower s) = 0"
proof (cases "filtered_items (filter_items lower s) = []")
  case True
  with arg_cong [where f = view_start, OF filter_items_unfold [of lower s]]
  show ?thesis by simp
next
  case False
  with arg_cong [where f = view_start, OF filter_items_unfold [of lower s]] assms
  show ?thesis by (simp add: ensure_visible_zero)
qed

lemma handle_max_rows:
  assumes "handle lower k s = Inr s'"
  shows "max_rows s' = max_rows s"
proof (cases k)
  case Up
  with assms show ?thesis by (auto simp add: key_up_def ensure_visible_frame)
next
  case Down
  with assms show ?thesis by (auto simp add: key_down_def ensure_visible_frame)
next
  case Tab
  with assms show ?thesis
    by (auto simp add: key_tab_def accept_selection_def ensure_visible_frame filter_items_frame
        split: if_splits sum.splits)
next
  case Escape
  with assms show ?thesis by (auto simp add: key_escape_def filter_items_frame)
next
  case Backspace
  with assms show ?thesis
    by (auto simp add: key_backspace_def filter_items_frame split: if_splits)
next
  case CtrlU
  with assms show ?thesis by (auto simp add: key_ctrl_u_def filter_items_frame)
next
  case (Char c)
  with assms show ?thesis by (auto simp add: key_char_def filter_items_frame split: if_splits)
qed

lemma handle_zero:
  assumes "max_rows s \<le> 0" "view_start s = 0" "handle lower k s = Inr s'"
  shows "view_start s' = 0"
proof (cases k)
  case Up
  with assms show ?thesis by (auto simp add: key_up_def ensure_visible_zero split: if_splits)
next
  case Down
  with assms show ?thesis by (auto simp add: key_down_def ensure_visible_zero split: if_splits)
next
  case Tab
  with assms show ?thesis
    by (auto simp add: key_tab_def accept_selection_def ensure_visible_zero filter_items_frame
        split: if_splits sum.splits)
next
  case Escape
  with assms show ?thesis by (auto simp add: key_escape_def filter_items_zero)
next
  case Backspace
  with assms show ?thesis
    by (auto simp add: key_backspace_def filter_items_zero split: if_splits)
next
  case CtrlU
  with assms show ?thesis by (auto simp add: key_ctrl_u_def filter_items_zero)
next
  case (Char c)
  with assms show ?thesis by (auto simp add: key_char_def filter_items_zero split: if_splits)
qed

lemma init_abc: "init ascii_lower [] [[97], [98], [99]] 2 =
   \<lparr>prompt_text = [], choices = [[97], [98], [99]], max_rows = 2, panel_width = 80,
    panel_inner_width = 76, input_text = [], filtered_items = [[97], [98], [99]],
    selected_index = 0, view_start = 0\<rparr>"
  by (simp add: filter_items_def init_def sort_items_def ensure_selection_visible_def
      strip_def Let_def)

lemma down_down_abc:
  "run_keys ascii_lower [Down, Down]
     \<lparr>prompt_text = [], choices = [[97], [98], [99]], max_rows = 2, panel_width = 80,
      panel_inner_width = 76, input_text = [], filtered_items = [[97], [98], [99]],
      selected_index = 0, view_start = 0\<rparr> =
   Inr \<lparr>prompt_text = [], choices = [[97], [98], [99]], max_rows = 2, panel_width = 80,
        panel_inner_width = 76, input_text = [], filtered_items = [[97], [98], [99]],
        selected_index = 2, view_start = 1\<rparr>"
  by (simp add: key_down_def ensure_selection_visible_def)

text \<open>
  Claim C5, as amended. In a session whose \<open>max_rows\<close> is at least 1 and whose filtered
  list is non-empty, every sequence of navigate-up and navigate-down events runs without
  an exception and ends in a state with
  \<open>view_start \<le> selected_index < view_start + max_rows\<close> and
  \<open>0 \<le> view_start \<le> max(len(filtered) - max_rows, 0)\<close>. Every prefix of such a sequence
  is such a sequence, so the bounds hold after each event.
\<close>

theorem viewport_invariant:
  assumes "reachable lower s" "1 \<le> max_rows s" "filtered_items s \<noteq> []"
    and "set ks \<subseteq> {Up, Down}"
  shows "\<exists>s'. run_keys lower ks s = Inr s' \<and> filtered_items s' = filtered_items s
      \<and> view_start s' \<le> selected_index s' \<and> selected_index s' < view_start s' + max_rows s'
      \<and> 0 \<le> view_start s'
      \<and> view_start s' \<le> max (int (length (filtered_items s')) - max_rows s') 0"
proof -
  from nav_run [OF reachable_inv [OF assms(1)] assms(4), of lower] obtain s' where
    s': "run_keys lower ks s = Inr s'" "session_inv s'"
    "filtered_items s' = filtered_items s" "max_rows s' = max_rows s" by blast
  with assms(2,3) have "viewport_ok s'" by (auto simp add: session_inv_def)
  with s' show ?thesis by (auto simp add: viewport_ok_def)
qed

theorem viewport_invariant_witness:
  "reachable ascii_lower (init ascii_lower [] [[97], [98], [99]] 2)
   \<and> 1 \<le> max_rows (init ascii_lower [] [[97], [98], [99]] 2)
   \<and> filtered_items (init ascii_lower [] [[97], [98], [99]] 2) \<noteq> []
   \<and> set [Down, Down] \<subseteq> {Up, Down}
   \<and> (\<exists>s'. run_keys ascii_lower [Down, Down] (init ascii_lower [] [[97], [98], [99]] 2) = Inr s'
        \<and> selected_index s' = 2 \<and> view_start s' = 1
        \<and> view_start s' \<le> selected_index s'
        \<and> selected_index s' < view_start s' + max_rows s'
        \<and> 0 \<le> view_start s'
        \<and> view_start s' \<le> max (int (length (filtered_items s')) - max_rows s') 0)"
proof -
  let ?s = "init ascii_lower [] [[97], [98], [99]] 2"
  have r: "reachable ascii_lower ?s" by (rule reachable.start)
  have m: "1 \<le> max_rows ?s" by (simp add: init_abc)
  have f: "filtered_items ?s \<noteq> []" by (simp add: init_abc)
  have k: "set [Down, Down] \<subseteq> {Up, Down}" by simp
  have e: "run_keys ascii_lower [Down, Down] ?s =
      Inr \<lparr>prompt_text = [], choices = [[97], [98], [99]], max_rows = 2, panel_width = 80,
        panel_inner_width = 76, input_text = [], filtered_items = [[97], [98], [99]],
        selected_index = 2, view_start = 1\<rparr>"
    unfolding init_abc by (rule down_down_abc)
  from viewport_invariant [OF r m f k] obtain s' where
    s': "run_keys ascii_lower [Down, Down] ?s = Inr s'"
    "view_start s' \<le> selected_index s'" "selected_index s' < view_start s' + max_rows s'"
    "0 \<le> view_start s'"
    "view_start s' \<le> max (int (length (filtered_items s')) - max_rows s') 0" by blast
  from s'(1) e have "selected_index s' = 2" "view_start s' = 1" by auto
  with s' r m f k show ?thesis by blast
qed

text \<open>
  Without the bound on \<open>max_rows\<close> claim C5 fails: with \<open>max_rows = 0\<close> the guard of
  \<open>_ensure_selection_visible\<close> keeps \<open>view_start\<close> at 0, and
  \<open>selected_index < view_start + max_rows\<close> cannot hold.
\<close>

theorem viewport_invariant_counterexample:
  "filtered_items (key_down (init ascii_lower [] [[97]] 0)) \<noteq> []
   \<and> \<not> (view_start (key_down (init ascii_lower [] [[97]] 0))
          \<le> selected_index (key_down (init ascii_lower [] [[97]] 0))
        \<and> selected_index (key_down (init ascii_lower [] [[97]] 0))
          < view_start (key_down (init ascii_lower [] [[97]] 0))
            + max_rows (key_down (init ascii_lower [] [[97]] 0)))"
  by (simp add: init_a0 key_down_def)

text \<open>
  The second sentence of claim C5 as amended: in every reachable state of a session with
  \<open>max_rows \<le> 0\<close> the guard of \<open>_ensure_selection_visible\<close> has kept \<open>view_start\<close> at 0.
\<close>

lemma view_start_zero_without_rows:
  "reachable lower s \<Longrightarrow> max_rows s \<le> 0 \<Longrightarrow> view_start s = 0"
proof (induction rule: reachable.induct)
  case (start prompt cs rows)
  then have "rows \<le> 0" by (simp add: init_def filter_items_frame)
  then show ?case unfolding init_def by (intro filter_items_zero) simp
next
  case (step s k s')
  from step.hyps(2) have m: "max_rows s' = max_rows s" by (rule handle_max_rows)
  with step.prems have le: "max_rows s \<le> 0" by simp
  from le step.IH [OF le] step.hyps(2) show ?case by (rule handle_zero)
qed

section \<open>Submit\<close>

text \<open>
  Claim C8. On submit, a non-empty raw query is returned as it is; with an empty raw
  query and a non-empty filtered list the candidate at the selected index is returned
  (the index is in range in every reachable state, so the read does not raise); with
  an empty raw query and an empty filtered list the empty string is returned.
\<close>

theorem submit_contract:
  assumes "reachable lower s"
  shows "(input_text s \<noteq> [] \<longrightarrow> key_enter s = Inr (input_text s))
    \<and> (input_text s = [] \<and> filtered_items s \<noteq> [] \<longrightarrow>
          0 \<le> selected_index s \<and> selected_index s < int (length (filtered_items s))
          \<and> key_enter s = Inr (filtered_items s ! nat (selected_index s)))
    \<and> (input_text s = [] \<and> filtered_items s = [] \<longrightarrow> key_enter s = Inr [])"
proof (intro conjI impI)
  assume "input_text s \<noteq> []"
  then show "key_enter s = Inr (input_text s)" by (simp add: key_enter_def)
next
  assume a: "input_text s = [] \<and> filtered_items s \<noteq> []"
  with inv_index [OF reachable_inv [OF assms]]
  have r: "0 \<le> selected_index s \<and> selected_index s < int (length (filtered_items s))"
    by simp
  then show "0 \<le> selected_index s" "selected_index s < int (length (filtered_items s))"
    by simp_all
  from a r show "key_enter s = Inr (filtered_items s ! nat (selected_index s))"
    by (simp add: key_enter_def getitem_in_range)
next
  assume "input_text s = [] \<and> filtered_items s = []"
  then show "key_enter s = Inr []" by (simp add: key_enter_def)
qed

theorem submit_contract_witness:
  "reachable ascii_lower (init ascii_lower [] [[97]] 6)
   \<and> input_text (init ascii_lower [] [[97]] 6) = []
   \<and> filtered_items (init ascii_lower [] [[97]] 6) \<noteq> []
   \<and> key_enter (init ascii_lower [] [[97]] 6) = Inr [97]
   \<and> reachable ascii_lower (key_char ascii_lower 97 (init ascii_lower [] [[97]] 6))
   \<and> key_enter (key_char ascii_lower 97 (init ascii_lower [] [[97]] 6)) = Inr [97]
   \<and> reachable ascii_lower (init ascii_lower [] [] 6)
   \<and> key_enter (init ascii_lower [] [] 6) = Inr []"
proof -
  let ?s1 = "init ascii_lower [] [[97]] 6"
  let ?s2 = "key_char ascii_lower 97 ?s1"
  let ?s3 = "init ascii_lower [] [] 6"
  have r1: "reachable ascii_lower ?s1" by (rule reachable.start)
  have h: "handle ascii_lower (Char 97) ?s1 = Inr ?s2"
    by (simp add: printable_def ascii_def)
  have r2: "reachable ascii_lower ?s2" by (rule reachable.step [OF r1 h])
  have r3: "reachable ascii_lower ?s3" by (rule reachable.start)
  have e1: "input_text ?s1 = []" "filtered_items ?s1 = [[97]]" "selected_index ?s1 = 0"
    by (simp_all add: init_a)
  have e2: "input_text ?s2 = [97]"
    by (simp add: key_char_def filter_items_frame e1)
  have e3: "input_text ?s3 = []" "filtered_items ?s3 = []"
    by (simp_all add: init_empty)
  have k1: "key_enter ?s1 = Inr [97]"
    using submit_contract [OF r1] e1 by simp
  have k2: "key_enter ?s2 = Inr [97]"
    using submit_contract [OF r2] e2 by simp
  have k3: "key_enter ?s3 = Inr []"
    using submit_contract [OF r3] e3 by simp
  show ?thesis using r1 r2 r3 e1 k1 k2 k3 by simp
qed

section \<open>The filter recomputation\<close>

lemma filter_items_mset:
  "mset (filtered_items (filter_items lower s)) =
     (if strip (input_text s) = [] then mset (choices s)
      else filter_mset (\<lambda>x. sublist (lower (strip (input_text s))) (lower x))
             (mset (choices s)))"
  by (simp add: filtered_items_filter_items sort_items_mset)

lemma filter_items_count:
  "count_list (filtered_items (filter_items lower s)) x =
     (if strip (input_text s) = [] \<or> sublist (lower (strip (input_text s))) (lower x)
      then count_list (choices s) x else 0)"
proof -
  have "count_list (filtered_items (filter_items lower s)) x
      = count (mset (filtered_items (filter_items lower s))) x"
    by (simp add: count_mset)
  also have "\<dots> = (if strip (input_text s) = [] \<or> sublist (lower (strip (input_text s))) (lower x)
      then count_list (choices s) x else 0)"
    unfolding filter_items_mset by (simp add: count_mset)
  finally show ?thesis .
qed

lemma filter_items_set:
  "set (filtered_items (filter_items lower s)) =
     (if strip (input_text s) = [] then set (choices s)
      else {x \<in> set (choices s). sublist (lower (strip (input_text s))) (lower x)})"
proof -
  have "set (filtered_items (filter_items lower s))
      = set_mset (mset (filtered_items (filter_items lower s)))" by simp
  also have "\<dots> = (if strip (input_text s) = [] then set (choices s)
      else {x \<in> set (choices s). sublist (lower (strip (input_text s))) (lower x)})"
    unfolding filter_items_mset by auto
  finally show ?thesis .
qed

lemma count_list_distinct: "distinct xs \<Longrightarrow> x \<in> set xs \<Longrightarrow> count_list xs x = 1"
  by (induction xs) auto

text \<open>
  Claim C1, as amended. Let \<open>t\<close> be the query with leading and trailing whitespace
  removed, and let \<open>t\<close> be non-empty. Every item of the list the filter recomputation
  returns is a candidate whose lowercase form contains the lowercase \<open>t\<close>, and every
  candidate whose lowercase form contains the lowercase \<open>t\<close> occurs in the returned list
  as often as in the candidate list: exactly once when the candidates are distinct.
\<close>

theorem filter_correctness:
  assumes "strip (input_text s) \<noteq> []"
  shows "(\<forall>x \<in> set (filtered_items (filter_items lower s)).
            x \<in> set (choices s) \<and> sublist (lower (strip (input_text s))) (lower x))
    \<and> (\<forall>x \<in> set (choices s). sublist (lower (strip (input_text s))) (lower x) \<longrightarrow>
          count_list (filtered_items (filter_items lower s)) x = count_list (choices s) x
          \<and> (distinct (choices s) \<longrightarrow> count_list (filtered_items (filter_items lower s)) x = 1))"
  using assms by (auto simp add: filter_items_set filter_items_count count_list_distinct)

theorem filter_correctness_witness:
  "strip (input_text ((init ascii_lower [] (map ascii [''ab'', ''cd'', ''xA'']) 6)
       \<lparr>input_text := ascii '' a''\<rparr>)) \<noteq> []
   \<and> count_list (filtered_items (filter_items ascii_lower
        ((init ascii_lower [] (map ascii [''ab'', ''cd'', ''xA'']) 6)
           \<lparr>input_text := ascii '' a''\<rparr>))) (ascii ''xA'') = 1"
proof -
  let ?s = "(init ascii_lower [] (map ascii [''ab'', ''cd'', ''xA'']) 6)
       \<lparr>input_text := ascii '' a''\<rparr>"
  have h: "strip (input_text ?s) \<noteq> []" by (simp add: ascii_def strip_def isspace_def)
  have c: "choices ?s = [[97, 98], [99, 100], [120, 65]]"
    by (simp add: init_def filter_items_frame ascii_def)
  have q: "strip (input_text ?s) = [97]" by (simp add: ascii_def strip_def isspace_def)
  have m: "sublist (ascii_lower (strip (input_text ?s))) (ascii_lower (ascii ''xA''))"
    unfolding q by (simp add: ascii_def ascii_lower_def sublist_Cons_right)
  have "ascii ''xA'' \<in> set (choices ?s)" unfolding c by (simp add: ascii_def)
  moreover have "distinct (choices ?s)" unfolding c by simp
  ultimately show ?thesis
    using filter_correctness [OF h, of ascii_lower] m h by blast
qed

text \<open>
  Claim C1 as stated fails in two ways. The query \<open>" "\<close> is non-empty, yet it is trimmed
  to the empty query and the candidate \<open>"a"\<close>, which does not contain a space, is
  returned. And the candidate list \<open>["a", "a"]\<close> is not deduplicated: with the query
  \<open>"a"\<close> the item \<open>"a"\<close> occurs twice in the result.
\<close>

theorem filter_correctness_counterexample:
  "ascii ''a'' \<in> set (filtered_items (filter_items ascii_lower
        ((init ascii_lower [] [ascii ''a''] 6)\<lparr>input_text := ascii '' ''\<rparr>)))
   \<and> ascii '' '' \<noteq> []
   \<and> \<not> sublist (ascii_lower (ascii '' '')) (ascii_lower (ascii ''a''))
   \<and> sublist (ascii_lower (ascii ''a'')) (ascii_lower (ascii ''a''))
   \<and> count_list (filtered_items (filter_items ascii_lower
        ((init ascii_lower [] [ascii ''a'', ascii ''a''] 6)\<lparr>input_text := ascii ''a''\<rparr>)))
        (ascii ''a'') = 2"
  by (simp add: eval_defs)

text \<open>
  Claim C2. When the trimmed query is empty, the filtered list is the candidate list in
  ascending lexicographic order of the code points. When it is non-empty, the filtered
  list holds the matching candidates, ascending in the key made of \<open>0\<close> or \<open>1\<close> (whether
  the lowercased candidate starts with the lowercased query), the result of \<open>find\<close>, and
  the lowercased candidate; for each item of the list, \<open>find\<close> is the least index at which
  the lowercased query occurs in the lowercased candidate.
\<close>

theorem rank_order:
  "(strip (input_text s) = [] \<longrightarrow>
      sorted (filtered_items (filter_items lower s))
      \<and> mset (filtered_items (filter_items lower s)) = mset (choices s))
   \<and> (strip (input_text s) \<noteq> [] \<longrightarrow>
      sorted (map (\<lambda>x. (if prefix (lower (strip (input_text s))) (lower x) then 0 else 1 :: int,
                        str_find (lower x) (lower (strip (input_text s))),
                        lower x))
                (filtered_items (filter_items lower s)))
      \<and> mset (filtered_items (filter_items lower s)) =
          filter_mset (\<lambda>x. sublist (lower (strip (input_text s))) (lower x)) (mset (choices s))
      \<and> (\<forall>x \<in> set (filtered_items (filter_items lower s)).
            \<exists>i. str_find (lower x) (lower (strip (input_text s))) = int i
              \<and> prefix (lower (strip (input_text s))) (drop i (lower x))
              \<and> (\<forall>j<i. \<not> prefix (lower (strip (input_text s))) (drop j (lower x)))))"
proof (intro conjI impI)
  assume e: "strip (input_text s) = []"
  show "sorted (filtered_items (filter_items lower s))"
    by (simp add: filtered_items_filter_items e sort_items_sorted_plain)
  show "mset (filtered_items (filter_items lower s)) = mset (choices s)"
    by (simp add: filter_items_mset e)
next
  assume ne: "strip (input_text s) \<noteq> []"
  let ?q = "lower (strip (input_text s))"
  let ?L = "filtered_items (filter_items lower s)"
  have match: "\<And>x. x \<in> set ?L \<Longrightarrow> sublist ?q (lower x)"
    using ne by (simp add: filter_items_set)
  have key: "\<And>x. x \<in> set ?L \<Longrightarrow> sort_key lower ?q x =
      (if prefix ?q (lower x) then 0 else 1, str_find (lower x) ?q, lower x)"
    using match by (simp add: sort_key_def Let_def str_find_found_iff)
  have "sorted (map (sort_key lower ?q) ?L)"
    unfolding filtered_items_filter_items using ne by (simp add: sort_items_sorted_key)
  moreover have "map (sort_key lower ?q) ?L =
      map (\<lambda>x. (if prefix ?q (lower x) then 0 else 1 :: int, str_find (lower x) ?q, lower x)) ?L"
    by (rule map_cong [OF refl]) (rule key)
  ultimately show "sorted (map (\<lambda>x. (if prefix ?q (lower x) then 0 else 1 :: int,
      str_find (lower x) ?q, lower x)) ?L)" by simp
  show "mset ?L = filter_mset (\<lambda>x. sublist ?q (lower x)) (mset (choices s))"
    by (simp add: filter_items_mset ne)
  show "\<forall>x \<in> set ?L. \<exists>i. str_find (lower x) ?q = int i \<and> prefix ?q (drop i (lower x))
      \<and> (\<forall>j<i. \<not> prefix ?q (drop j (lower x)))"
  proof
    fix x assume "x \<in> set ?L"
    then have "0 \<le> str_find (lower x) ?q" using match by (simp add: str_find_found_iff)
    then obtain i where i: "str_find (lower x) ?q = int i"
      using nonneg_int_cases by blast
    with str_find_occurs [OF i] str_find_first [OF i]
    show "\<exists>i. str_find (lower x) ?q = int i \<and> prefix ?q (drop i (lower x))
      \<and> (\<forall>j<i. \<not> prefix ?q (drop j (lower x)))" by blast
  qed
qed

theorem rank_order_witness:
  "strip (input_text ((init ascii_lower [] [[97]] 6)\<lparr>input_text := [32, 97]\<rparr>)) \<noteq> []
   \<and> mset (filtered_items (filter_items ascii_lower
        ((init ascii_lower [] [[97]] 6)\<lparr>input_text := [32, 97]\<rparr>)))
     = filter_mset (\<lambda>x. sublist (ascii_lower (strip (input_text
          ((init ascii_lower [] [[97]] 6)\<lparr>input_text := [32, 97]\<rparr>)))) (ascii_lower x))
        (mset (choices ((init ascii_lower [] [[97]] 6)\<lparr>input_text := [32, 97]\<rparr>)))
   \<and> strip (input_text (init ascii_lower [] [[97]] 6)) = []
   \<and> sorted (filtered_items (filter_items ascii_lower (init ascii_lower [] [[97]] 6)))"
proof -
  let ?s = "(init ascii_lower [] [[97]] 6)\<lparr>input_text := [32, 97]\<rparr>"
  have h: "strip (input_text ?s) \<noteq> []" by (simp add: strip_def isspace_def)
  have e: "strip (input_text (init ascii_lower [] [[97]] 6)) = []"
    by (simp add: init_def filter_items_frame strip_def)
  show ?thesis
    using rank_order [of ?s ascii_lower] rank_order [of "init ascii_lower [] [[97]] 6" ascii_lower]
      h e by blast
qed

section \<open>Rows of the rendered panel\<close>

lemma content_rows_append: "content_rows (a @ b) = content_rows a + content_rows b"
  by (simp add: content_rows_def)

lemma content_rows_header: "content_rows (panel_header s title) = 0"
  by (simp add: panel_header_def content_rows_def Let_def)

lemma content_rows_footer: "content_rows (panel_footer s) = 0"
  by (simp add: panel_footer_def content_rows_def Let_def)

lemma content_rows_row:
  "style \<noteq> ascii ''class:panel-border'' \<Longrightarrow> content_rows (panel_row s txt style) = 1"
  by (simp add: panel_row_def content_rows_def Let_def)

lemma styles_distinct:
  "ascii ''class:no-results'' \<noteq> ascii ''class:panel-border''"
  "ascii ''class:panel-placeholder'' \<noteq> ascii ''class:panel-border''"
  "ascii ''class:selected-line'' \<noteq> ascii ''class:panel-border''"
  "ascii ''class:panel-line'' \<noteq> ascii ''class:panel-border''"
  by (simp_all add: ascii_def)

lemma length_py_range: "length (py_range n) = nat n"
  by (simp add: py_range_def)

lemma py_range_nonneg: "idx \<in> set (py_range n) \<Longrightarrow> 0 \<le> idx"
  by (auto simp add: py_range_def)

lemma panel_slot_rows:
  assumes "0 \<le> view_start s + idx"
  shows "\<exists>row. panel_slot s idx = Inr row \<and> content_rows row = 1"
proof (cases "view_start s + idx < int (length (filtered_items s))")
  case True
  with assms have "getitem (filtered_items s) (view_start s + idx)
      = Inr (filtered_items s ! nat (view_start s + idx))"
    by (simp add: getitem_in_range)
  with True show ?thesis
    by (simp add: panel_slot_def Let_def content_rows_row styles_distinct)
next
  case False
  then show ?thesis
    by (simp add: panel_slot_def Let_def content_rows_row styles_distinct)
qed

lemma panel_slots_rows:
  assumes "\<forall>idx \<in> set idxs. 0 \<le> view_start s + idx"
  shows "\<exists>out. panel_slots s idxs lines = Inr out
      \<and> content_rows out = content_rows lines + length idxs"
  using assms
proof (induction idxs arbitrary: lines)
  case Nil
  then show ?case by simp
next
  case (Cons idx idxs)
  then have "0 \<le> view_start s + idx" by simp
  from panel_slot_rows [OF this] obtain row where
    row: "panel_slot s idx = Inr row" "content_rows row = 1" by blast
  from Cons.prems have "\<forall>i \<in> set idxs. 0 \<le> view_start s + i" by simp
  from Cons.IH [OF this, of "lines @ row"] obtain out where
    "panel_slots s idxs (lines @ row) = Inr out"
    "content_rows out = content_rows (lines @ row) + length idxs" by blast
  with row show ?case by (simp add: content_rows_append)
qed

lemma placeholder_rows:
  "content_rows (fold (\<lambda>_ acc. acc @ panel_row s [] (ascii ''class:panel-placeholder'')) xs lines)
     = content_rows lines + length xs"
  by (induction xs arbitrary: lines)
     (simp_all add: content_rows_append content_rows_row styles_distinct)

lemma render_panel_empty_rows:
  assumes "filtered_items s = []"
  shows "map_sum id content_rows (render_panel s) = Inr (1 + nat (max_rows s - 1))"
  using assms
  by (simp add: render_panel_def Let_def content_rows_append content_rows_header
      content_rows_footer content_rows_row styles_distinct placeholder_rows length_py_range)

lemma render_panel_nonempty_rows:
  assumes "filtered_items s \<noteq> []" "0 \<le> view_start s"
  shows "map_sum id content_rows (render_panel s) = Inr (nat (max_rows s))"
proof -
  have "\<forall>idx \<in> set (py_range (max_rows s)). 0 \<le> view_start s + idx"
    using assms(2) py_range_nonneg by fastforce
  from panel_slots_rows [OF this, of "panel_header s (ascii ''NerdIcons'')"] obtain out where
    "panel_slots s (py_range (max_rows s)) (panel_header s (ascii ''NerdIcons'')) = Inr out"
    "content_rows out = content_rows (panel_header s (ascii ''NerdIcons''))
        + length (py_range (max_rows s))" by blast
  with assms(1) show ?thesis
    by (simp add: render_panel_def content_rows_append content_rows_header content_rows_footer
        length_py_range)
qed

lemma init_empty0: "init ascii_lower [] [] 0 =
   \<lparr>prompt_text = [], choices = [], max_rows = 0, panel_width = 80,
    panel_inner_width = 76, input_text = [], filtered_items = [],
    selected_index = 0, view_start = 0\<rparr>"
  by (simp add: filter_items_def init_def sort_items_def strip_def Let_def)

text \<open>
  Claim C6, as amended. In every session state with \<open>max_rows\<close> at least 1, rendering
  the panel raises no exception and produces exactly \<open>max_rows\<close> content rows between the
  header and the footer, whether the filtered list is empty, shorter than \<open>max_rows\<close> or
  longer.
\<close>

theorem panel_row_count:
  assumes "reachable lower s" "1 \<le> max_rows s"
  shows "map_sum id content_rows (render_panel s) = Inr (nat (max_rows s))"
proof (cases "filtered_items s = []")
  case True
  from assms(2) have "1 + nat (max_rows s - 1) = nat (max_rows s)" by simp
  with render_panel_empty_rows [OF True] show ?thesis by simp
next
  case False
  from reachable_inv [OF assms(1)] have "0 \<le> view_start s" by (simp add: session_inv_def)
  with False show ?thesis by (rule render_panel_nonempty_rows)
qed

theorem panel_row_count_witness:
  "reachable ascii_lower (init ascii_lower [] [[97]] 6)
   \<and> 1 \<le> max_rows (init ascii_lower [] [[97]] 6)
   \<and> map_sum id content_rows (render_panel (init ascii_lower [] [[97]] 6)) = Inr 6"
proof -
  have r: "reachable ascii_lower (init ascii_lower [] [[97]] 6)" by (rule reachable.start)
  have m: "max_rows (init ascii_lower [] [[97]] 6) = 6" by (simp add: init_a)
  from panel_row_count [OF r] r m show ?thesis by simp
qed

text \<open>
  Without the bound on \<open>max_rows\<close> claim C6 fails: with no candidates and \<open>max_rows = 0\<close>
  the panel still has its message row, one content row rather than none.
\<close>

theorem panel_row_count_counterexample:
  "map_sum id content_rows (render_panel (init ascii_lower [] [] 0))
     \<noteq> Inr (nat (max_rows (init ascii_lower [] [] 0)))"
proof -
  have "filtered_items (init ascii_lower [] [] 0) = []" by (simp add: init_empty0)
  from render_panel_empty_rows [OF this] show ?thesis by (simp add: init_empty0)
qed

section \<open>The candidate loader\<close>

lemma load_missing_file: "load_nerdicons int16 upper None = Inr []"
  by (simp add: load_nerdicons_def)

lemma load_loop_in_range:
  assumes "\<forall>(name, h) \<in> set raw. \<forall>cp. int16 h = Inr cp \<longrightarrow> - 2147483648 \<le> cp \<and> cp \<le> 2147483647"
    and "\<forall>(name, h) \<in> set raw. \<forall>e. int16 h = Inl e \<longrightarrow> e = ValueError"
  shows "load_loop int16 upper raw items =
     Inr (items @ concat (map (\<lambda>(name, h).
        case int16 h of
          Inl e \<Rightarrow> []
        | Inr cp \<Rightarrow> if 0 \<le> cp \<and> cp < 1114112
                     then [[nat cp] @ [32] @ name @ ascii '' (U+'' @ upper h @ ascii '')'']
                     else []) raw))"
  using assms
proof (induction raw arbitrary: items)
  case Nil
  then show ?case by simp
next
  case (Cons entry raw)
  obtain name h where e: "entry = (name, h)" by (cases entry)
  from Cons.prems have rest:
    "\<forall>(name, h) \<in> set raw. \<forall>cp. int16 h = Inr cp \<longrightarrow> - 2147483648 \<le> cp \<and> cp \<le> 2147483647"
    "\<forall>(name, h) \<in> set raw. \<forall>e. int16 h = Inl e \<longrightarrow> e = ValueError"
    by simp_all
  show ?case
  proof (cases "int16 h")
    case (Inl err)
    with Cons.prems(2) e have "err = ValueError" by simp
    with Inl e Cons.IH [OF rest] show ?thesis by simp
  next
    case (Inr cp)
    with Cons.prems(1) e have "- 2147483648 \<le> cp \<and> cp \<le> 2147483647" by simp
    with Inr e Cons.IH [OF rest] show ?thesis by (simp add: chr_def)
  qed
qed

lemma load_out_of_range_is_skipped:
  "load_nerdicons ascii_int16 ascii_upper
     (Some [([97], ascii ''41''), ([98], ascii ''zz''), ([99], ascii ''110000'')])
   = Inr [[65, 32, 97] @ ascii '' (U+41)'']"
  by (simp add: load_nerdicons_def ascii_int16_def hexval_def chr_def ascii_def ascii_upper_def
      Let_def)

text \<open>
  Claim C9 at the dataset \<open>{"x": "80000000"}\<close>. The hexadecimal string parses to
  \<open>2147483648\<close>, \<open>chr\<close> raises \<open>OverflowError\<close>, and the handler catches \<open>ValueError\<close>
  only: the loader raises instead of skipping the entry.
\<close>

theorem load_overflow_is_fatal:
  "load_nerdicons ascii_int16 ascii_upper (Some [([120], ascii ''80000000'')]) = Inl OverflowError"
  by (simp add: load_nerdicons_def ascii_int16_def hexval_def chr_def ascii_def Let_def)

section \<open>Selection and viewport after a re-filter\<close>

lemma view_start_filter_items:
  "view_start (filter_items lower s) =
     (if filtered_items (filter_items lower s) = [] \<or> max_rows s \<le> 0 then 0
      else if (case previous_value s of None \<Rightarrow> True
               | Some v \<Rightarrow> v \<notin> set (filtered_items (filter_items lower s)))
      then spec_recenter (selected_index (filter_items lower s))
             (int (length (filtered_items (filter_items lower s)))) (max_rows s)
      else spec_minimal_adjust (selected_index (filter_items lower s)) (view_start s)
             (int (length (filtered_items (filter_items lower s)))) (max_rows s))"
  using arg_cong [where f = view_start, OF filter_items_unfold [of lower s]]
  by (simp add: ensure_selection_visible_def spec_recenter_def spec_minimal_adjust_def
      clamp_def Let_def)

lemma list_index_hd: "xs \<noteq> [] \<Longrightarrow> hd xs = v \<Longrightarrow> list_index xs v = 0"
  by (cases xs) (simp_all add: list_index_def)

lemma sorted_hd_Nil:
  fixes xs :: "str list"
  assumes "sorted xs" "[] \<in> set xs"
  shows "hd xs = []"
proof (cases xs)
  case Nil
  with assms show ?thesis by simp
next
  case (Cons h t)
  with assms have "h \<le> []" by auto
  with Cons show ?thesis by simp
qed

lemma empty_candidate_first:
  assumes "[] \<in> set (filtered_items (filter_items lower s))"
    and "\<forall>x. (lower x = []) = (x = [])"
  shows "list_index (filtered_items (filter_items lower s)) [] = 0"
proof (cases "strip (input_text s) = []")
  case True
  then have "sorted (filtered_items (filter_items lower s))"
    by (simp add: filtered_items_filter_items sort_items_sorted_plain)
  then have "hd (filtered_items (filter_items lower s)) = []"
    using assms(1) by (rule sorted_hd_Nil)
  moreover from assms(1) have "filtered_items (filter_items lower s) \<noteq> []" by auto
  ultimately show ?thesis by (simp add: list_index_hd)
next
  case False
  have "set (filtered_items (filter_items lower s)) =
      set_mset (mset (filtered_items (filter_items lower s)))" by simp
  with assms(1) False have "sublist (lower (strip (input_text s))) (lower [])"
    by (simp add: filtered_items_filter_items sort_items_mset del: set_mset_mset)
  moreover have "lower [] = []" using assms(2) by blast
  ultimately have "lower (strip (input_text s)) = []" by simp
  with assms(2) have "strip (input_text s) = []" by blast
  with False show ?thesis by simp
qed

lemma ascii_lower_empty_iff: "\<forall>x. (ascii_lower x = []) = (x = [])"
  by (simp add: ascii_lower_def)

lemma refilter_kept:
  "filter_items ascii_lower
     \<lparr>prompt_text = [], choices = [[98, 97], [97], [99, 97]], max_rows = 2, panel_width = 80,
      panel_inner_width = 76, input_text = [99], filtered_items = [[97], [98, 97], [99, 97]],
      selected_index = 2, view_start = 1\<rparr> =
   \<lparr>prompt_text = [], choices = [[98, 97], [97], [99, 97]], max_rows = 2, panel_width = 80,
    panel_inner_width = 76, input_text = [99], filtered_items = [[99, 97]],
    selected_index = 0, view_start = 0\<rparr>"
  by (simp add: filter_items_def sort_items_def sort_key_def ensure_selection_visible_def
      ascii_lower_def strip_def isspace_def list_index_def Let_def sublist_Cons_right)

lemma refilter_gone:
  "filter_items ascii_lower
     \<lparr>prompt_text = [], choices = [[98, 97], [97], [99, 97]], max_rows = 2, panel_width = 80,
      panel_inner_width = 76, input_text = [98], filtered_items = [[97], [98, 97], [99, 97]],
      selected_index = 2, view_start = 1\<rparr> =
   \<lparr>prompt_text = [], choices = [[98, 97], [97], [99, 97]], max_rows = 2, panel_width = 80,
    panel_inner_width = 76, input_text = [98], filtered_items = [[98, 97]],
    selected_index = 0, view_start = 0\<rparr>"
  by (simp add: filter_items_def sort_items_def sort_key_def ensure_selection_visible_def
      ascii_lower_def strip_def isspace_def list_index_def Let_def sublist_Cons_right)

lemma key_char_a0:
  "key_char ascii_lower 97 (init ascii_lower [] [[97]] 0) =
   \<lparr>prompt_text = [], choices = [[97]], max_rows = 0, panel_width = 80,
    panel_inner_width = 76, input_text = [97], filtered_items = [[97]],
    selected_index = 0, view_start = 0\<rparr>"
  by (simp add: init_a0 key_char_def filter_items_def sort_items_def sort_key_def
      ensure_selection_visible_def ascii_lower_def strip_def isspace_def list_index_def Let_def
      sublist_Cons_right)

text \<open>
  Claim C4, as amended. A query edit sets the query to some text \<open>q\<close> and runs the filter
  cycle. Let the filtered list be non-empty before, with the selected index in range, and
  let \<open>v\<close> be the candidate at that index. If \<open>v\<close> is in the new filtered list, the new
  selected index is the first index of \<open>v\<close> in that list, and \<open>view_start\<close> is the result
  of the minimal-adjust policy on the old \<open>view_start\<close> when \<open>max_rows\<close> is at least 1,
  and \<open>0\<close> when \<open>max_rows\<close> is not positive. If \<open>v\<close> is not in the new list, the selected
  index is \<open>0\<close> and \<open>view_start\<close> is the result of the recenter policy. Lowercasing is
  taken to map the empty string, and only it, to the empty string, as \<open>str.lower\<close> does.
\<close>

theorem refilter_selection:
  assumes "filtered_items s \<noteq> []"
    and "0 \<le> selected_index s" and "selected_index s < int (length (filtered_items s))"
    and "\<forall>x. (lower x = []) = (x = [])"
  shows "(filtered_items s ! nat (selected_index s)
            \<in> set (filtered_items (filter_items lower (s\<lparr>input_text := q\<rparr>))) \<longrightarrow>
          selected_index (filter_items lower (s\<lparr>input_text := q\<rparr>))
            = int (list_index (filtered_items (filter_items lower (s\<lparr>input_text := q\<rparr>)))
                     (filtered_items s ! nat (selected_index s)))
          \<and> filtered_items (filter_items lower (s\<lparr>input_text := q\<rparr>))
               ! nat (selected_index (filter_items lower (s\<lparr>input_text := q\<rparr>)))
            = filtered_items s ! nat (selected_index s)
          \<and> view_start (filter_items lower (s\<lparr>input_text := q\<rparr>))
            = (if max_rows s \<le> 0 then 0
               else spec_minimal_adjust
                      (selected_index (filter_items lower (s\<lparr>input_text := q\<rparr>)))
                      (view_start s)
                      (int (length (filtered_items (filter_items lower (s\<lparr>input_text := q\<rparr>)))))
                      (max_rows s)))
     \<and> (filtered_items s ! nat (selected_index s)
            \<notin> set (filtered_items (filter_items lower (s\<lparr>input_text := q\<rparr>))) \<longrightarrow>
          selected_index (filter_items lower (s\<lparr>input_text := q\<rparr>)) = 0
          \<and> view_start (filter_items lower (s\<lparr>input_text := q\<rparr>))
            = spec_recenter (selected_index (filter_items lower (s\<lparr>input_text := q\<rparr>)))
                (int (length (filtered_items (filter_items lower (s\<lparr>input_text := q\<rparr>)))))
                (max_rows s))"
proof -
  define v where "v = filtered_items s ! nat (selected_index s)"
  define s' where "s' = filter_items lower (s\<lparr>input_text := q\<rparr>)"
  define L where "L = filtered_items s'"
  have pv: "previous_value (s\<lparr>input_text := q\<rparr>) = Some v"
    using assms(1-3) by (simp add: previous_value_def v_def)
  have sel: "selected_index s' = (if v \<noteq> [] \<and> v \<in> set L then int (list_index L v) else 0)"
    unfolding s'_def L_def by (simp add: selected_index_filter_items pv)
  have vs: "view_start s' =
     (if L = [] \<or> max_rows s \<le> 0 then 0
      else if v \<notin> set L then spec_recenter (selected_index s') (int (length L)) (max_rows s)
      else spec_minimal_adjust (selected_index s') (view_start s) (int (length L)) (max_rows s))"
    unfolding s'_def L_def
    using view_start_filter_items [of lower "s\<lparr>input_text := q\<rparr>"] by (simp add: pv)
  have kept: "v \<in> set L \<Longrightarrow> selected_index s' = int (list_index L v)"
  proof (cases "v = []")
    case True
    assume "v \<in> set L"
    with True have "list_index L [] = 0"
      unfolding L_def s'_def using empty_candidate_first [OF _ assms(4)] by simp
    with True sel show ?thesis by simp
  next
    case False
    assume "v \<in> set L"
    with False sel show ?thesis by simp
  qed
  have a: "v \<in> set L \<longrightarrow> selected_index s' = int (list_index L v)
      \<and> L ! nat (selected_index s') = v
      \<and> view_start s' = (if max_rows s \<le> 0 then 0
           else spec_minimal_adjust (selected_index s') (view_start s) (int (length L)) (max_rows s))"
  proof
    assume m: "v \<in> set L"
    then have "L \<noteq> []" by auto
    with m vs kept [OF m] show "selected_index s' = int (list_index L v)
      \<and> L ! nat (selected_index s') = v
      \<and> view_start s' = (if max_rows s \<le> 0 then 0
           else spec_minimal_adjust (selected_index s') (view_start s) (int (length L)) (max_rows s))"
      by (simp add: list_index_nth)
  qed
  have b: "v \<notin> set L \<longrightarrow> selected_index s' = 0
      \<and> view_start s' = spec_recenter (selected_index s') (int (length L)) (max_rows s)"
    using sel vs by (auto simp add: spec_recenter_def clamp_def)
  from a b show ?thesis unfolding v_def s'_def L_def by blast
qed

theorem refilter_selection_witness:
  "(\<forall>x. (ascii_lower x = []) = (x = []))
   \<and> selected_index (filter_items ascii_lower
        \<lparr>prompt_text = [], choices = [[98, 97], [97], [99, 97]], max_rows = 2, panel_width = 80,
         panel_inner_width = 76, input_text = [99], filtered_items = [[97], [98, 97], [99, 97]],
         selected_index = 2, view_start = 1\<rparr>) = 0
   \<and> view_start (filter_items ascii_lower
        \<lparr>prompt_text = [], choices = [[98, 97], [97], [99, 97]], max_rows = 2, panel_width = 80,
         panel_inner_width = 76, input_text = [99], filtered_items = [[97], [98, 97], [99, 97]],
         selected_index = 2, view_start = 1\<rparr>) = spec_minimal_adjust 0 1 1 2
   \<and> view_start (filter_items ascii_lower
        \<lparr>prompt_text = [], choices = [[98, 97], [97], [99, 97]], max_rows = 2, panel_width = 80,
         panel_inner_width = 76, input_text = [98], filtered_items = [[97], [98, 97], [99, 97]],
         selected_index = 2, view_start = 1\<rparr>) = spec_recenter 0 1 2"
proof -
  define s where "s = \<lparr>prompt_text = [], choices = [[98, 97], [97], [99, 97]], max_rows = 2,
      panel_width = 80, panel_inner_width = 76, input_text = [],
      filtered_items = [[97], [98, 97], [99, 97]], selected_index = 2, view_start = (1::int)\<rparr>"
  have h1: "filtered_items s \<noteq> []" by (simp add: s_def)
  have h2: "0 \<le> selected_index s" by (simp add: s_def)
  have h3: "selected_index s < int (length (filtered_items s))" by (simp add: s_def)
  have v: "filtered_items s ! nat (selected_index s) = [99, 97]" by (simp add: s_def)
  have m: "max_rows s = 2" "view_start s = 1" by (simp_all add: s_def)
  have k: "filter_items ascii_lower (s\<lparr>input_text := [99]\<rparr>) =
      \<lparr>prompt_text = [], choices = [[98, 97], [97], [99, 97]], max_rows = 2, panel_width = 80,
       panel_inner_width = 76, input_text = [99], filtered_items = [[99, 97]],
       selected_index = 0, view_start = 0\<rparr>"
    unfolding s_def using refilter_kept by simp
  have g: "filter_items ascii_lower (s\<lparr>input_text := [98]\<rparr>) =
      \<lparr>prompt_text = [], choices = [[98, 97], [97], [99, 97]], max_rows = 2, panel_width = 80,
       panel_inner_width = 76, input_text = [98], filtered_items = [[98, 97]],
       selected_index = 0, view_start = 0\<rparr>"
    unfolding s_def using refilter_gone by simp
  have kf: "filtered_items (filter_items ascii_lower (s\<lparr>input_text := [99]\<rparr>)) = [[99, 97]]"
    by (simp add: k)
  have gf: "filtered_items (filter_items ascii_lower (s\<lparr>input_text := [98]\<rparr>)) = [[98, 97]]"
    by (simp add: g)
  from refilter_selection [OF h1 h2 h3 ascii_lower_empty_iff, of "[99]"]
  have a: "selected_index (filter_items ascii_lower (s\<lparr>input_text := [99]\<rparr>)) = 0
      \<and> view_start (filter_items ascii_lower (s\<lparr>input_text := [99]\<rparr>))
          = spec_minimal_adjust 0 1 1 2"
    unfolding v m by (simp add: kf list_index_def)
  from refilter_selection [OF h1 h2 h3 ascii_lower_empty_iff, of "[98]"]
  have b: "view_start (filter_items ascii_lower (s\<lparr>input_text := [98]\<rparr>)) = spec_recenter 0 1 2"
    unfolding v m by (simp add: gf)
  from a b ascii_lower_empty_iff show ?thesis unfolding s_def by simp
qed

text \<open>
  Claim C4 as stated fails for \<open>max_rows = 0\<close>: one candidate \<open>"a"\<close>, then the character
  \<open>a\<close> typed. The candidate stays selected, the guard of \<open>_ensure_selection_visible\<close>
  leaves \<open>view_start\<close> at 0, and the minimal-adjust policy of the specification would
  give 1.
\<close>

theorem refilter_selection_counterexample:
  "filtered_items (init ascii_lower [] [[97]] 0) \<noteq> []
   \<and> filtered_items (init ascii_lower [] [[97]] 0)
        ! nat (selected_index (init ascii_lower [] [[97]] 0))
      \<in> set (filtered_items (key_char ascii_lower 97 (init ascii_lower [] [[97]] 0)))
   \<and> view_start (key_char ascii_lower 97 (init ascii_lower [] [[97]] 0))
      \<noteq> spec_minimal_adjust
           (selected_index (key_char ascii_lower 97 (init ascii_lower [] [[97]] 0)))
           (view_start (init ascii_lower [] [[97]] 0))
           (int (length (filtered_items (key_char ascii_lower 97 (init ascii_lower [] [[97]] 0)))))
           (max_rows (init ascii_lower [] [[97]] 0))"
  unfolding key_char_a0 by (simp add: init_a0 spec_minimal_adjust_def clamp_def)

section \<open>Accepting the highlighted candidate\<close>

lemma str_find_prefix: "prefix sub t \<Longrightarrow> str_find t sub = 0"
  by (cases t) auto


lemma sort_key_self: "sort_key lower (lower v) v = (0, 0, lower v)"
  by (simp add: sort_key_def Let_def str_find_prefix)
















end
